theory Spec2Isabelle
  imports Complex_Main "HOL-Library.Char_ord" "HOL-Library.List_Lexorder"
begin

section \<open>Data model of \<^verbatim>\<open>decision_tree.py\<close>\<close>

text \<open>
  A data point is a Python dictionary from attribute names to values. Insertion order is
  observable (\<^verbatim>\<open>for attribute in data[0]\<close>), so a dictionary is an association list;
  a lookup of a missing key raises \<^verbatim>\<open>KeyError\<close>. Values are Python integers or
  strings. Every exception the source can raise is a value of \<open>error\<close>, and a function
  that may raise returns \<open>error + 'a\<close>.

  Python floats are idealised as real numbers and \<^verbatim>\<open>math.log(x, 2)\<close> as \<open>log 2 x\<close>.
  The theorems on the shape of trees and on classification below do not depend on the
  values of the gains: they hold for whatever attribute the comparison of gains selects.
  That the builder returns a tree uses one fact about them, that a gain is greater than
  the initial \<open>-1\<close>. Strings are ASCII.
\<close>

datatype error = KeyError | ValueError | TypeError | IndexError | ZeroDivisionError

datatype val = IntV int | StrV string

type_synonym data_point = "(string \<times> val) list"

type_synonym dataset = "data_point list"

definition getitem :: "data_point \<Rightarrow> string \<Rightarrow> error + val" where
  "getitem d k = (case map_of d k of None \<Rightarrow> Inl KeyError | Some v \<Rightarrow> Inr v)"

text \<open>\<^verbatim>\<open>data[0]\<close> on a list.\<close>

definition first_point :: "dataset \<Rightarrow> error + data_point" where
  "first_point data = (case data of [] \<Rightarrow> Inl IndexError | d # _ \<Rightarrow> Inr d)"

text \<open>A list of results, evaluated left to right: the first exception wins.\<close>

fun collect :: "(error + 'a) list \<Rightarrow> error + 'a list" where
  "collect [] = Inr []"
| "collect (r # rs) =
     (case r of Inl e \<Rightarrow> Inl e
      | Inr x \<Rightarrow> (case collect rs of Inl e \<Rightarrow> Inl e | Inr xs \<Rightarrow> Inr (x # xs)))"

text \<open>\<^verbatim>\<open>list.remove(x)\<close>: drops the first occurrence, \<^verbatim>\<open>ValueError\<close> when there is none.\<close>

definition list_remove :: "'a list \<Rightarrow> 'a \<Rightarrow> error + 'a list" where
  "list_remove xs x = (if x \<in> set xs then Inr (remove1 x xs) else Inl ValueError)"

subsection \<open>The builtin \<^verbatim>\<open>int\<close> on the values of a data point\<close>

text \<open>
  \<^verbatim>\<open>int(s)\<close> on a string accepts a decimal literal: optional surrounding white space, an
  optional sign, and digits that single underscores may separate. Anything else raises
  \<^verbatim>\<open>ValueError\<close>. On an integer it is the identity. The white space that \<^verbatim>\<open>int\<close> skips
  in an ASCII string is the tab, the line feed, the vertical tab, the form feed, the
  carriage return and the space; the separators \<^verbatim>\<open>\\x1c\<close> to \<^verbatim>\<open>\\x1f\<close>, which
  \<^verbatim>\<open>str.isspace\<close> accepts, are not skipped, so \<^verbatim>\<open>int('\\x1c7')\<close> raises \<^verbatim>\<open>ValueError\<close>.
\<close>

definition is_space :: "char \<Rightarrow> bool" where
  "is_space c = (of_char c \<in> {9, 10, 11, 12, 13, 32 :: nat})"

definition is_digit :: "char \<Rightarrow> bool" where
  "is_digit c = (48 \<le> (of_char c :: nat) \<and> (of_char c :: nat) \<le> 57)"

definition digit_val :: "char \<Rightarrow> nat" where
  "digit_val c = of_char c - 48"

fun parse_digits :: "bool \<Rightarrow> nat \<Rightarrow> string \<Rightarrow> nat option" where
  "parse_digits prev acc [] = (if prev then Some acc else None)"
| "parse_digits prev acc (c # cs) =
     (if is_digit c then parse_digits True (10 * acc + digit_val c) cs
      else if c = CHR ''_'' \<and> prev then parse_digits False acc cs
      else None)"

definition strip :: "string \<Rightarrow> string" where
  "strip s = rev (dropWhile is_space (rev (dropWhile is_space s)))"

definition int_of_string :: "string \<Rightarrow> int option" where
  "int_of_string s =
     (case strip s of
        [] \<Rightarrow> None
      | c # cs \<Rightarrow>
          if c = CHR ''-'' then map_option (\<lambda>n. - int n) (parse_digits False 0 cs)
          else if c = CHR ''+'' then map_option int (parse_digits False 0 cs)
          else map_option int (parse_digits False 0 (c # cs)))"

definition py_int :: "val \<Rightarrow> error + int" where
  "py_int v =
     (case v of
        IntV i \<Rightarrow> Inr i
      | StrV s \<Rightarrow> (case int_of_string s of None \<Rightarrow> Inl ValueError | Some i \<Rightarrow> Inr i))"

definition represents_integer :: "val \<Rightarrow> bool" where
  "represents_integer s = (case py_int s of Inr _ \<Rightarrow> True | Inl _ \<Rightarrow> False)"

subsection \<open>Comparison and sorting of values\<close>

text \<open>
  \<^verbatim>\<open><\<close> compares two integers by value and two strings lexicographically; an integer
  against a string raises \<^verbatim>\<open>TypeError\<close>.
\<close>

definition val_less :: "val \<Rightarrow> val \<Rightarrow> error + bool" where
  "val_less a b =
     (case (a, b) of
        (IntV i, IntV j) \<Rightarrow> Inr (i < j)
      | (StrV s, StrV t) \<Rightarrow> Inr (s < t)
      | _ \<Rightarrow> Inl TypeError)"

fun int_keys :: "val list \<Rightarrow> int list option" where
  "int_keys [] = Some []"
| "int_keys (IntV i # vs) = map_option ((#) i) (int_keys vs)"
| "int_keys (StrV s # vs) = None"

fun str_keys :: "val list \<Rightarrow> string list option" where
  "str_keys [] = Some []"
| "str_keys (StrV s # vs) = map_option ((#) s) (str_keys vs)"
| "str_keys (IntV i # vs) = None"

text \<open>
  \<^verbatim>\<open>sorted(data, key=lambda i: i[attribute])\<close>: the keys are computed first (a missing
  attribute raises), then the points are sorted stably by key. Keys of mixed types do not
  compare.
\<close>

definition py_sorted :: "dataset \<Rightarrow> string \<Rightarrow> error + dataset" where
  "py_sorted data attribute =
     (case collect (map (\<lambda>d. getitem d attribute) data) of
        Inl e \<Rightarrow> Inl e
      | Inr ks \<Rightarrow>
          (case int_keys ks of
             Some is \<Rightarrow> Inr (map snd (sort_key fst (zip is data)))
           | None \<Rightarrow>
               (case str_keys ks of
                  Some ss \<Rightarrow> Inr (map snd (sort_key fst (zip ss data)))
                | None \<Rightarrow> Inl TypeError)))"

section \<open>Counting\<close>

text \<open>
  The dictionaries of counts and of subsets are keyed by attribute values (or by the
  strings \<^verbatim>\<open>'below'\<close> and \<^verbatim>\<open>'above'\<close>) and are iterated in insertion order.
\<close>

type_synonym counts = "(val \<times> nat \<times> nat) list"

definition is_class0 :: "val \<Rightarrow> bool" where
  "is_class0 c = (c = IntV 0)"

definition is_class1 :: "val \<Rightarrow> bool" where
  "is_class1 c = (c = IntV 1)"

fun majority_loop :: "dataset \<Rightarrow> nat \<Rightarrow> nat \<Rightarrow> error + int" where
  "majority_loop [] counts_positive counts_negative =
     Inr (if counts_negative > counts_positive then 0 else 1)"
| "majority_loop (d # ds) counts_positive counts_negative =
     (case getitem d ''class'' of
        Inl e \<Rightarrow> Inl e
      | Inr c \<Rightarrow>
          if is_class0 c then majority_loop ds counts_positive (counts_negative + 1)
          else majority_loop ds (counts_positive + 1) counts_negative)"

definition majority_label :: "dataset \<Rightarrow> error + int" where
  "majority_label data = majority_loop data 0 0"

fun count_add :: "val \<Rightarrow> bool \<Rightarrow> counts \<Rightarrow> counts" where
  "count_add k z [] = [(k, if z then (1, 0) else (0, 1))]"
| "count_add k z ((k', c0, c1) # cs) =
     (if k' = k then (k', if z then (c0 + 1, c1) else (c0, c1 + 1)) # cs
      else (k', c0, c1) # count_add k z cs)"

fun get_counts_loop :: "dataset \<Rightarrow> string \<Rightarrow> counts \<Rightarrow> error + counts" where
  "get_counts_loop [] attribute counts = Inr counts"
| "get_counts_loop (item # items) attribute counts =
     (case getitem item ''class'' of
        Inl e \<Rightarrow> Inl e
      | Inr c \<Rightarrow>
          (case getitem item attribute of
             Inl e \<Rightarrow> Inl e
           | Inr v \<Rightarrow> get_counts_loop items attribute (count_add v (is_class0 c) counts)))"

text \<open>
  The accumulator holds the two counts of \<^verbatim>\<open>'below'\<close>, then those of \<^verbatim>\<open>'above'\<close>. The attribute is read only where the source's
  short-circuit conditions reach it: a class that is neither 0 nor 1 is counted in
  \<^verbatim>\<open>counts['above'][1]\<close> without the attribute being looked at.
\<close>

fun get_counts_threshold_loop ::
  "dataset \<Rightarrow> string \<Rightarrow> int \<Rightarrow> (nat \<times> nat) \<times> (nat \<times> nat) \<Rightarrow> error + (nat \<times> nat) \<times> (nat \<times> nat)" where
  "get_counts_threshold_loop [] attribute threshold acc = Inr acc"
| "get_counts_threshold_loop (item # items) attribute threshold ((b0, b1), (a0, a1)) =
     (case getitem item ''class'' of
        Inl e \<Rightarrow> Inl e
      | Inr c \<Rightarrow>
          if is_class0 c then
            (case getitem item attribute of
               Inl e \<Rightarrow> Inl e
             | Inr v \<Rightarrow>
                 (case py_int v of
                    Inl e \<Rightarrow> Inl e
                  | Inr i \<Rightarrow>
                      if i < threshold
                      then get_counts_threshold_loop items attribute threshold ((b0 + 1, b1), (a0, a1))
                      else get_counts_threshold_loop items attribute threshold ((b0, b1), (a0 + 1, a1))))
          else if is_class1 c then
            (case getitem item attribute of
               Inl e \<Rightarrow> Inl e
             | Inr v \<Rightarrow>
                 (case py_int v of
                    Inl e \<Rightarrow> Inl e
                  | Inr i \<Rightarrow>
                      if i < threshold
                      then get_counts_threshold_loop items attribute threshold ((b0, b1 + 1), (a0, a1))
                      else get_counts_threshold_loop items attribute threshold ((b0, b1), (a0, a1 + 1))))
          else get_counts_threshold_loop items attribute threshold ((b0, b1), (a0, a1 + 1)))"

definition get_counts_threshold :: "dataset \<Rightarrow> string \<Rightarrow> int \<Rightarrow> error + counts" where
  "get_counts_threshold data attribute threshold =
     (case get_counts_threshold_loop data attribute threshold ((0, 0), (0, 0)) of
        Inl e \<Rightarrow> Inl e
      | Inr (cb, ca) \<Rightarrow> Inr [(StrV ''below'', cb), (StrV ''above'', ca)])"

definition get_counts :: "dataset \<Rightarrow> string \<Rightarrow> int option \<Rightarrow> error + counts" where
  "get_counts data attribute threshold =
     (case threshold of
        Some t \<Rightarrow> get_counts_threshold data attribute t
      | None \<Rightarrow> get_counts_loop data attribute [])"

section \<open>Information gain and thresholds\<close>

text \<open>
  \<^verbatim>\<open>get_information_gain\<close>: the entropy of the classes minus the conditional entropy of
  the categories. Every division is by \<^verbatim>\<open>len(data)\<close> or by a sum of two counts that
  are both non-zero; the former raises \<^verbatim>\<open>ZeroDivisionError\<close> on an empty list.
\<close>

fun conditional_entropy_loop :: "counts \<Rightarrow> nat \<Rightarrow> real \<Rightarrow> error + real" where
  "conditional_entropy_loop [] n conditional_entropy = Inr conditional_entropy"
| "conditional_entropy_loop ((category, c0, c1) # cs) n conditional_entropy =
     (if c0 = 0 \<or> c1 = 0 then conditional_entropy_loop cs n conditional_entropy
      else if n = 0 then Inl ZeroDivisionError
      else
        (let total = c0 + c1;
             proportion = real total / real n;
             label_0 = (real c0 / real total) * log 2 (real c0 / real total);
             label_1 = (real c1 / real total) * log 2 (real c1 / real total)
         in conditional_entropy_loop cs n (conditional_entropy + proportion * (label_0 + label_1))))"

definition class_entropy :: "nat \<Rightarrow> nat \<Rightarrow> nat \<Rightarrow> error + real" where
  "class_entropy total_0 total_1 n =
     (if total_0 \<noteq> 0 \<and> total_1 \<noteq> 0 then
        (if n = 0 then Inl ZeroDivisionError
         else Inr (- ((real total_0 / real n * log 2 (real total_0 / real n))
                    + (real total_1 / real n * log 2 (real total_1 / real n)))))
      else Inr 0)"

definition get_information_gain :: "dataset \<Rightarrow> string \<Rightarrow> int option \<Rightarrow> error + real" where
  "get_information_gain data attribute threshold =
     (case get_counts data attribute threshold of
        Inl e \<Rightarrow> Inl e
      | Inr counts \<Rightarrow>
          (let total_0 = sum_list (map (\<lambda>(category, c0, c1). c0) counts);
               total_1 = sum_list (map (\<lambda>(category, c0, c1). c1) counts)
           in case class_entropy total_0 total_1 (length data) of
                Inl e \<Rightarrow> Inl e
              | Inr entropy \<Rightarrow>
                  (case conditional_entropy_loop counts (length data) 0 of
                     Inl e \<Rightarrow> Inl e
                   | Inr conditional_entropy \<Rightarrow> Inr (entropy - conditional_entropy * (- 1)))))"

text \<open>
  \<^verbatim>\<open>get_information_gain_threshold\<close>. The \<^verbatim>\<open>while\<close> loop counts the classes of the
  points whose value is below the threshold and stops at the first point that is not;
  running off the end of the list raises \<^verbatim>\<open>IndexError\<close>. It returns the rest of the
  list, which the \<^verbatim>\<open>for\<close> loop counts.
\<close>

fun below_threshold_loop ::
  "dataset \<Rightarrow> string \<Rightarrow> val \<Rightarrow> nat \<times> nat \<Rightarrow> error + (nat \<times> nat) \<times> dataset" where
  "below_threshold_loop [] attribute threshold counts_bt = Inl IndexError"
| "below_threshold_loop (d # ds) attribute threshold (c0, c1) =
     (case getitem d attribute of
        Inl e \<Rightarrow> Inl e
      | Inr v \<Rightarrow>
          (case val_less v threshold of
             Inl e \<Rightarrow> Inl e
           | Inr False \<Rightarrow> Inr ((c0, c1), d # ds)
           | Inr True \<Rightarrow>
               (case getitem d ''class'' of
                  Inl e \<Rightarrow> Inl e
                | Inr c \<Rightarrow>
                    if is_class0 c then below_threshold_loop ds attribute threshold (c0 + 1, c1)
                    else below_threshold_loop ds attribute threshold (c0, c1 + 1))))"

fun above_threshold_loop :: "dataset \<Rightarrow> nat \<times> nat \<Rightarrow> error + nat \<times> nat" where
  "above_threshold_loop [] counts_at = Inr counts_at"
| "above_threshold_loop (d # ds) (c0, c1) =
     (case getitem d ''class'' of
        Inl e \<Rightarrow> Inl e
      | Inr c \<Rightarrow>
          if is_class0 c then above_threshold_loop ds (c0 + 1, c1)
          else above_threshold_loop ds (c0, c1 + 1))"

definition side_entropy :: "nat \<Rightarrow> nat \<Rightarrow> real" where
  "side_entropy c0 c1 =
     (real c0 / real (c0 + c1)) * log 2 (real c0 / real (c0 + c1))
     + (real c1 / real (c0 + c1)) * log 2 (real c1 / real (c0 + c1))"

definition get_information_gain_threshold :: "dataset \<Rightarrow> string \<Rightarrow> val \<Rightarrow> error + real" where
  "get_information_gain_threshold sorted_data attribute threshold =
     (case below_threshold_loop sorted_data attribute threshold (0, 0) of
        Inl e \<Rightarrow> Inl e
      | Inr ((b0, b1), rest) \<Rightarrow>
          (case above_threshold_loop rest (0, 0) of
             Inl e \<Rightarrow> Inl e
           | Inr (a0, a1) \<Rightarrow>
               (let total_bt = b0 + b1; total_at = a0 + a1
                in if (b0 = 0 \<or> b1 = 0) \<or> (a0 = 0 \<or> a1 = 0) then Inr 0
                   else
                     (let probability_bt = real total_bt / real (length sorted_data);
                          probability_at = real total_at / real (length sorted_data);
                          conditional_bt = side_entropy b0 b1;
                          conditional_at = side_entropy a0 a1
                      in Inr (probability_bt * - conditional_bt
                              + probability_at * - conditional_at)))))"

text \<open>
  The loop of \<^verbatim>\<open>find_threshold\<close> over the sorted points. Its state is
  \<^verbatim>\<open>previous_class\<close>, \<^verbatim>\<open>max_info_gain\<close>, \<^verbatim>\<open>best_threshold\<close> and \<^verbatim>\<open>tested\<close>; the
  function that scores a candidate is an argument, which \<^verbatim>\<open>find_threshold\<close> sets to
  \<^verbatim>\<open>get_information_gain_threshold\<close> on the sorted data.

  The test \<^verbatim>\<open>threshold_info_gain > max_info_gain\<close> compares two doubles in the source and
  two reals here. Where two candidates have scores that are equal as reals and differ
  after rounding, or the reverse, the source can keep another candidate than this loop.
  The theorems below therefore use the comparison in two ways only: in evaluations at
  inputs whose scores are exact in double precision or differ by far more than a
  rounding error, and in statements that hold whichever candidate the comparison keeps.
\<close>

fun find_threshold_loop ::
  "(val \<Rightarrow> error + real) \<Rightarrow> string \<Rightarrow> dataset \<Rightarrow> val \<Rightarrow> real \<Rightarrow> val \<Rightarrow> val list \<Rightarrow> error + val" where
  "find_threshold_loop score attribute [] previous_class max_info_gain best_threshold tested =
     Inr best_threshold"
| "find_threshold_loop score attribute (d # ds) previous_class max_info_gain best_threshold tested =
     (case getitem d attribute of
        Inl e \<Rightarrow> Inl e
      | Inr threshold \<Rightarrow>
          (case getitem d ''class'' of
             Inl e \<Rightarrow> Inl e
           | Inr c \<Rightarrow>
               if threshold \<notin> set tested \<and> c \<noteq> previous_class then
                 (case score threshold of
                    Inl e \<Rightarrow> Inl e
                  | Inr threshold_info_gain \<Rightarrow>
                      if threshold_info_gain > max_info_gain
                      then find_threshold_loop score attribute ds c threshold_info_gain threshold
                             (tested @ [threshold])
                      else find_threshold_loop score attribute ds c max_info_gain best_threshold
                             (tested @ [threshold]))
               else find_threshold_loop score attribute ds c max_info_gain best_threshold tested))"

definition find_threshold :: "dataset \<Rightarrow> string \<Rightarrow> error + int" where
  "find_threshold data attribute =
     (case py_sorted data attribute of
        Inl e \<Rightarrow> Inl e
      | Inr sorted_data \<Rightarrow>
          (case find_threshold_loop (get_information_gain_threshold sorted_data attribute)
                  attribute sorted_data (IntV (- 1)) 0 (IntV 0) [] of
             Inl e \<Rightarrow> Inl e
           | Inr best_threshold \<Rightarrow> py_int best_threshold))"

section \<open>Splitting\<close>

fun category_add :: "val \<Rightarrow> data_point \<Rightarrow> (val \<times> dataset) list \<Rightarrow> (val \<times> dataset) list" where
  "category_add k d [] = [(k, [d])]"
| "category_add k d ((k', ds) # cs) =
     (if k' = k then (k', ds @ [d]) # cs else (k', ds) # category_add k d cs)"

fun split_loop :: "dataset \<Rightarrow> string \<Rightarrow> (val \<times> dataset) list \<Rightarrow> error + (val \<times> dataset) list" where
  "split_loop [] attribute data_categories = Inr data_categories"
| "split_loop (d # ds) attribute data_categories =
     (case getitem d attribute of
        Inl e \<Rightarrow> Inl e
      | Inr v \<Rightarrow> split_loop ds attribute (category_add v d data_categories))"

fun split_threshold_loop ::
  "dataset \<Rightarrow> string \<Rightarrow> int \<Rightarrow> dataset \<times> dataset \<Rightarrow> error + dataset \<times> dataset" where
  "split_threshold_loop [] attribute threshold acc = Inr acc"
| "split_threshold_loop (d # ds) attribute threshold (lo, hi) =
     (case getitem d attribute of
        Inl e \<Rightarrow> Inl e
      | Inr v \<Rightarrow>
          (case py_int v of
             Inl e \<Rightarrow> Inl e
           | Inr i \<Rightarrow>
               if i < threshold then split_threshold_loop ds attribute threshold (lo @ [d], hi)
               else split_threshold_loop ds attribute threshold (lo, hi @ [d])))"

definition split_on_attribute_threshold ::
  "dataset \<Rightarrow> string \<Rightarrow> int \<Rightarrow> error + (dataset \<times> val) list" where
  "split_on_attribute_threshold data attribute threshold =
     (case split_threshold_loop data attribute threshold ([], []) of
        Inl e \<Rightarrow> Inl e
      | Inr (lo, hi) \<Rightarrow> Inr [(lo, StrV ''below''), (hi, StrV ''above'')])"

definition split_on_attribute ::
  "dataset \<Rightarrow> string \<Rightarrow> int option \<Rightarrow> error + (dataset \<times> val) list" where
  "split_on_attribute data attribute threshold =
     (case threshold of
        Some t \<Rightarrow> split_on_attribute_threshold data attribute t
      | None \<Rightarrow>
          (case split_loop data attribute [] of
             Inl e \<Rightarrow> Inl e
           | Inr data_categories \<Rightarrow> Inr (map (\<lambda>(key, ds). (ds, key)) data_categories)))"

section \<open>The baseline\<close>

fun correct_count :: "counts \<Rightarrow> nat \<Rightarrow> nat" where
  "correct_count [] correct = correct"
| "correct_count ((cat, c0, c1) # cs) correct =
     correct_count cs (correct + (if c0 > c1 then c0 else c1))"

fun baseline_loop ::
  "dataset \<Rightarrow> data_point \<Rightarrow> string list \<Rightarrow> real \<times> string option \<Rightarrow> error + real \<times> string option" where
  "baseline_loop data d0 [] st = Inr st"
| "baseline_loop data d0 (attribute # rest) (best_ratio, best_attribute) =
     (if attribute = ''fnlwgt'' then baseline_loop data d0 rest (best_ratio, best_attribute)
      else
        (case getitem d0 attribute of
           Inl e \<Rightarrow> Inl e
         | Inr v \<Rightarrow>
             (case (if represents_integer v
                    then (case find_threshold data attribute of
                            Inl e \<Rightarrow> Inl e
                          | Inr t \<Rightarrow> get_counts data attribute (Some t))
                    else get_counts data attribute None) of
                Inl e \<Rightarrow> Inl e
              | Inr counts \<Rightarrow>
                  (let correct = correct_count counts 0 in
                   if real correct / real (length data) > best_ratio
                   then baseline_loop data d0 rest (real correct / real (length data), Some attribute)
                   else baseline_loop data d0 rest (best_ratio, best_attribute)))))"

text \<open>
  After the loop the name \<^verbatim>\<open>attribute\<close> still holds the last key of \<^verbatim>\<open>data[0]\<close>
  (the \<^verbatim>\<open>for\<close> statement binds it before \<^verbatim>\<open>continue\<close>); line 46 of the source passes
  it to \<^verbatim>\<open>find_threshold\<close>. The function returns the pair of the attribute and the
  dictionary of labels.
\<close>

definition find_baseline_attribute :: "dataset \<Rightarrow> error + string \<times> (val \<times> int) list" where
  "find_baseline_attribute data =
     (case first_point data of
        Inl e \<Rightarrow> Inl e
      | Inr d0 \<Rightarrow>
      (case baseline_loop data d0 (map fst d0) (0, None) of
        Inl e \<Rightarrow> Inl e
      | Inr (best_ratio, best) \<Rightarrow>
      (case best of
        None \<Rightarrow> Inl KeyError
      | Some best_attribute \<Rightarrow>
      (case getitem d0 best_attribute of
        Inl e \<Rightarrow> Inl e
      | Inr v \<Rightarrow>
      (case (if represents_integer v
             then (case find_threshold data (last (map fst d0)) of
                     Inl e \<Rightarrow> Inl e
                   | Inr t \<Rightarrow> get_counts data best_attribute (Some t))
             else get_counts data best_attribute None) of
        Inl e \<Rightarrow> Inl e
      | Inr counts \<Rightarrow>
          Inr (best_attribute,
               map (\<lambda>(cat, c0, c1). (cat, if c0 > c1 then 0 else 1)) counts))))))"

section \<open>The tree\<close>

text \<open>
  The loop of \<^verbatim>\<open>_build_decision_tree\<close> over the attributes, with state
  \<^verbatim>\<open>max_information_gain\<close>, \<^verbatim>\<open>best_attribute\<close>, \<^verbatim>\<open>best_threshold\<close>.
\<close>

fun select_attribute ::
  "dataset \<Rightarrow> string list \<Rightarrow> real \<times> string option \<times> int option
     \<Rightarrow> error + real \<times> string option \<times> int option" where
  "select_attribute data [] st = Inr st"
| "select_attribute data (attribute # rest) (max_information_gain, best_attribute, best_threshold) =
     (case first_point data of
        Inl e \<Rightarrow> Inl e
      | Inr d0 \<Rightarrow>
          (case getitem d0 attribute of
             Inl e \<Rightarrow> Inl e
           | Inr v \<Rightarrow>
               if represents_integer v then
                 (case find_threshold data attribute of
                    Inl e \<Rightarrow> Inl e
                  | Inr t \<Rightarrow>
                      (case get_information_gain data attribute (Some t) of
                         Inl e \<Rightarrow> Inl e
                       | Inr information_gain \<Rightarrow>
                           if information_gain > max_information_gain
                           then select_attribute data rest (information_gain, Some attribute, Some t)
                           else select_attribute data rest
                                  (max_information_gain, best_attribute, best_threshold)))
               else
                 (case get_information_gain data attribute None of
                    Inl e \<Rightarrow> Inl e
                  | Inr information_gain \<Rightarrow>
                      if information_gain > max_information_gain
                      then select_attribute data rest (information_gain, Some attribute, None)
                      else select_attribute data rest
                             (max_information_gain, best_attribute, best_threshold))))"

text \<open>
  The class \<^verbatim>\<open>Node\<close>. The source builds a tree by mutating fresh nodes; the model
  returns the finished node. \<^verbatim>\<open>None\<close> in \<^verbatim>\<open>attribute\<close>, \<^verbatim>\<open>category\<close> and
  \<^verbatim>\<open>threshold\<close> is \<open>None\<close>.
\<close>

datatype node = Node
  (attribute: "string option")
  (children: "node list")
  (label: int)
  (category: "val option")
  (threshold: "int option")

text \<open>
  \<^verbatim>\<open>_build_decision_tree(data, node, attributes, max_depth, depth)\<close>, where the node is
  known by its category. \<^verbatim>\<open>data[0][best_attribute]\<close> raises \<^verbatim>\<open>KeyError\<close> when no
  attribute was selected, and \<^verbatim>\<open>new_attributes.remove\<close> raises when the attribute is
  not in the list.
\<close>

function build_decision_tree_rec ::
  "dataset \<Rightarrow> val option \<Rightarrow> string list \<Rightarrow> int option \<Rightarrow> int \<Rightarrow> error + node" where
  "build_decision_tree_rec data cat attributes max_depth depth0 =
     (let depth = depth0 + 1 in
      case collect (map (\<lambda>data_point. getitem data_point ''class'') data) of
        Inl e \<Rightarrow> Inl e
      | Inr data_classes \<Rightarrow>
      (case majority_label data of
        Inl e \<Rightarrow> Inl e
      | Inr lab \<Rightarrow>
      if length attributes = 0 \<or> length data_classes = length (remdups data_classes)
      then Inr (Node None [] lab cat None)
      else if (case max_depth of None \<Rightarrow> False | Some m \<Rightarrow> depth > m)
      then Inr (Node None [] lab cat None)
      else
      (case select_attribute data attributes (- 1, None, None) of
        Inl e \<Rightarrow> Inl e
      | Inr (max_information_gain, best, best_threshold) \<Rightarrow>
      (case first_point data of
        Inl e \<Rightarrow> Inl e
      | Inr d0 \<Rightarrow>
      (case best of
        None \<Rightarrow> Inl KeyError
      | Some best_attribute \<Rightarrow>
      (case getitem d0 best_attribute of
        Inl e \<Rightarrow> Inl e
      | Inr v \<Rightarrow>
      (case (if represents_integer v
             then split_on_attribute data best_attribute best_threshold
             else split_on_attribute data best_attribute None) of
        Inl e \<Rightarrow> Inl e
      | Inr subsets \<Rightarrow>
      (case collect (map (\<lambda>subset.
                if length (fst subset) = 0 then
                  (case majority_label data of
                     Inl e \<Rightarrow> Inl e
                   | Inr l \<Rightarrow> Inr (Node None [] l (Some (snd subset)) None))
                else
                  (case list_remove attributes best_attribute of
                     Inl e \<Rightarrow> Inl e
                   | Inr new_attributes \<Rightarrow>
                       build_decision_tree_rec (fst subset) (Some (snd subset)) new_attributes
                         max_depth depth)) subsets) of
        Inl e \<Rightarrow> Inl e
      | Inr new_nodes \<Rightarrow>
          Inr (Node (Some best_attribute) new_nodes lab cat best_threshold)))))))))"
  by pat_completeness auto
termination
  by (relation "measure (\<lambda>(data, cat, attributes, max_depth, depth0). length attributes)")
    (auto simp: list_remove_def length_remove1 split: if_splits)

definition build_decision_tree :: "dataset \<Rightarrow> int option \<Rightarrow> error + node" where
  "build_decision_tree data max_depth =
     (case first_point data of
        Inl e \<Rightarrow> Inl e
      | Inr d0 \<Rightarrow>
          (case list_remove (map fst d0) ''fnlwgt'' of
             Inl e \<Rightarrow> Inl e
           | Inr attributes1 \<Rightarrow>
               (case list_remove attributes1 ''class'' of
                  Inl e \<Rightarrow> Inl e
                | Inr attributes \<Rightarrow> build_decision_tree_rec data None attributes max_depth 0)))"

section \<open>Classification\<close>

text \<open>
  \<^verbatim>\<open>decision_tree_classify\<close>. \<^verbatim>\<open>item[None]\<close> raises \<^verbatim>\<open>KeyError\<close>; comparing an
  integer with the threshold \<^verbatim>\<open>None\<close> raises \<^verbatim>\<open>TypeError\<close>; \<^verbatim>\<open>node.children[1]\<close> on a
  single child raises \<^verbatim>\<open>IndexError\<close>.
\<close>

function decision_tree_classify :: "data_point \<Rightarrow> node \<Rightarrow> error + int" where
  "decision_tree_classify item nd =
     (if length (children nd) = 0 then Inr (label nd)
      else
        (case attribute nd of
           None \<Rightarrow> Inl KeyError
         | Some a \<Rightarrow>
             (case getitem item a of
                Inl e \<Rightarrow> Inl e
              | Inr cat \<Rightarrow>
                  if \<not> represents_integer cat then
                    (case find (\<lambda>child. category child = Some cat) (children nd) of
                       Some child \<Rightarrow> decision_tree_classify item child
                     | None \<Rightarrow> decision_tree_classify item (hd (children nd)))
                  else
                    (case py_int cat of
                       Inl e \<Rightarrow> Inl e
                     | Inr i \<Rightarrow>
                         (case threshold nd of
                            None \<Rightarrow> Inl TypeError
                          | Some t \<Rightarrow>
                              if i < t then decision_tree_classify item (hd (children nd))
                              else if length (children nd) > 1
                              then decision_tree_classify item (children nd ! 1)
                              else Inl IndexError)))))"
  by pat_completeness auto

termination
proof (relation "measure (\<lambda>(item, nd). size nd)")
  have size_child: "size c < size nd" if "c \<in> set (children nd)" for c nd :: node
    using that by (cases nd) (auto simp: less_Suc_eq_le size_list_estimation')
  {
  fix item :: data_point and nd :: node and cat :: val and child :: node
  assume "find (\<lambda>child. category child = Some cat) (children nd) = Some child"
  then have "child \<in> set (children nd)"
    by (auto simp: find_Some_iff)
  then show "((item, child), (item, nd)) \<in> measure (\<lambda>(item, nd). size nd)"
    by (simp add: size_child)
next
  fix item :: data_point and nd :: node
  assume "length (children nd) \<noteq> 0"
  then have "hd (children nd) \<in> set (children nd)" by simp
  then show "((item, hd (children nd)), (item, nd)) \<in> measure (\<lambda>(item, nd). size nd)"
    by (simp add: size_child)
next
  fix item :: data_point and nd :: node
  assume "length (children nd) \<noteq> 0"
  then have "hd (children nd) \<in> set (children nd)" by simp
  then show "((item, hd (children nd)), (item, nd)) \<in> measure (\<lambda>(item, nd). size nd)"
    by (simp add: size_child)
next
  fix item :: data_point and nd :: node
  assume "1 < length (children nd)"
  then have "children nd ! 1 \<in> set (children nd)" by simp
  then show "((item, children nd ! 1), (item, nd)) \<in> measure (\<lambda>(item, nd). size nd)"
    by (simp add: size_child)
  }
qed simp

declare build_decision_tree_rec.simps [simp del]

declare decision_tree_classify.simps [simp del]

section \<open>Notions used by the properties\<close>

text \<open>
  The depth of a tree: the number of split edges on its longest path from the root to a
  leaf.
\<close>

fun tree_depth :: "node \<Rightarrow> nat" where
  "tree_depth (Node a ch l c t) = fold max (map (\<lambda>child. Suc (tree_depth child)) ch) 0"

text \<open>The nodes of a tree: the node itself and the nodes of its children.\<close>

fun subnodes :: "node \<Rightarrow> node list" where
  "subnodes (Node a ch l c t) = Node a ch l c t # concat (map subnodes ch)"

text \<open>
  The body of the loop of \<^verbatim>\<open>_build_decision_tree\<close> over the subsets: the node made
  for one pair of a subset and its category.
\<close>

definition build_child ::
  "dataset \<Rightarrow> string list \<Rightarrow> string \<Rightarrow> int option \<Rightarrow> int \<Rightarrow> dataset \<times> val \<Rightarrow> error + node" where
  "build_child data attributes best_attribute max_depth depth sub =
     (if length (fst sub) = 0 then
        (case majority_label data of
           Inl e \<Rightarrow> Inl e
         | Inr l \<Rightarrow> Inr (Node None [] l (Some (snd sub)) None))
      else
        (case list_remove attributes best_attribute of
           Inl e \<Rightarrow> Inl e
         | Inr new_attributes \<Rightarrow>
             build_decision_tree_rec (fst sub) (Some (snd sub)) new_attributes
               max_depth depth))"

subsection \<open>Concrete datasets\<close>

text \<open>Two points of class 0 that differ in their colour.\<close>

definition same_class_data :: dataset where
  "same_class_data =
     [[(''color'', StrV ''red''), (''fnlwgt'', IntV 1), (''class'', IntV 0)],
      [(''color'', StrV ''blue''), (''fnlwgt'', IntV 2), (''class'', IntV 0)]]"

text \<open>Two points whose first key is the label and whose colour says nothing.\<close>

definition class_first_data :: dataset where
  "class_first_data =
     [[(''class'', IntV 0), (''fnlwgt'', IntV 1), (''color'', StrV ''red'')],
      [(''class'', IntV 1), (''fnlwgt'', IntV 2), (''color'', StrV ''red'')]]"

text \<open>Four points with two continuous attributes; \<^verbatim>\<open>hours\<close> is the last key.\<close>

definition baseline_data :: dataset where
  "baseline_data =
     [[(''age'', IntV 10), (''class'', IntV 0), (''fnlwgt'', IntV 1), (''hours'', IntV 5)],
      [(''age'', IntV 11), (''class'', IntV 1), (''fnlwgt'', IntV 1), (''hours'', IntV 5)],
      [(''age'', IntV 20), (''class'', IntV 0), (''fnlwgt'', IntV 1), (''hours'', IntV 11)],
      [(''age'', IntV 21), (''class'', IntV 1), (''fnlwgt'', IntV 1), (''hours'', IntV 11)]]"

subsection \<open>Records to classify\<close>



text \<open>
  The selection loop's choice is sound for a set of attributes and the first point: the
  chosen attribute is in the set, and it comes with a threshold exactly when its value in
  the first point is an integer literal.
\<close>

definition choice_ok :: "string set \<Rightarrow> data_point \<Rightarrow> string option \<Rightarrow> int option \<Rightarrow> bool" where
  "choice_ok S p0 b t =
     (\<forall>a. b = Some a \<longrightarrow>
        a \<in> S \<and> (\<exists>v. getitem p0 a = Inr v \<and> (t \<noteq> None \<longleftrightarrow> represents_integer v)))"

text \<open>The integer value of a point's attribute, and the two sides of a threshold.\<close>

definition int_value :: "data_point \<Rightarrow> string \<Rightarrow> error + int" where
  "int_value d a = (case getitem d a of Inl e \<Rightarrow> Inl e | Inr v \<Rightarrow> py_int v)"

definition is_below :: "string \<Rightarrow> int \<Rightarrow> data_point \<Rightarrow> bool" where
  "is_below a t d = (case int_value d a of Inl e \<Rightarrow> False | Inr i \<Rightarrow> i < t)"

definition is_above :: "string \<Rightarrow> int \<Rightarrow> data_point \<Rightarrow> bool" where
  "is_above a t d = (case int_value d a of Inl e \<Rightarrow> False | Inr i \<Rightarrow> i \<ge> t)"



text \<open>
  Four points whose balance decides the class, and the tree that the recursive builder
  returns on them.
\<close>

definition balance_data :: dataset where
  "balance_data =
     [[(''balance'', IntV (- 1)), (''fnlwgt'', IntV 1), (''class'', IntV 0)],
      [(''balance'', IntV (- 1)), (''fnlwgt'', IntV 1), (''class'', IntV 0)],
      [(''balance'', IntV 5), (''fnlwgt'', IntV 1), (''class'', IntV 1)],
      [(''balance'', IntV 5), (''fnlwgt'', IntV 1), (''class'', IntV 1)]]"

definition balance_tree :: node where
  "balance_tree =
     Node (Some ''balance'')
       [Node None [] 0 (Some (StrV ''below'')) None, Node None [] 1 (Some (StrV ''above'')) None]
       1 None (Some 0)"

subsection \<open>Candidate thresholds\<close>

text \<open>
  The values that the loop of \<^verbatim>\<open>find_threshold\<close> tests, in the order in which it finds
  them: a value not tested before, at a point whose class differs from the class of the
  point before it.
\<close>

fun threshold_candidates :: "string \<Rightarrow> dataset \<Rightarrow> val \<Rightarrow> val list \<Rightarrow> val list" where
  "threshold_candidates a [] previous_class tested = []"
| "threshold_candidates a (d # ds) previous_class tested =
     (case getitem d a of
        Inl e \<Rightarrow> []
      | Inr v \<Rightarrow>
          (case getitem d ''class'' of
             Inl e \<Rightarrow> []
           | Inr c \<Rightarrow>
               if v \<notin> set tested \<and> c \<noteq> previous_class
               then v # threshold_candidates a ds c (tested @ [v])
               else threshold_candidates a ds c tested))"

text \<open>A computation returned a gain strictly greater than 0.\<close>

definition gain_positive :: "error + real \<Rightarrow> bool" where
  "gain_positive r = (case r of Inl e \<Rightarrow> False | Inr g \<Rightarrow> 0 < g)"

text \<open>Eight points whose best candidate threshold is the value 0.\<close>

definition zero_data :: dataset where
  "zero_data =
     [[(''balance'', IntV (- 1)), (''fnlwgt'', IntV 1), (''class'', IntV 0)],
      [(''balance'', IntV (- 1)), (''fnlwgt'', IntV 1), (''class'', IntV 1)],
      [(''balance'', IntV (- 1)), (''fnlwgt'', IntV 1), (''class'', IntV 1)],
      [(''balance'', IntV (- 1)), (''fnlwgt'', IntV 1), (''class'', IntV 1)],
      [(''balance'', IntV 0), (''fnlwgt'', IntV 1), (''class'', IntV 0)],
      [(''balance'', IntV 0), (''fnlwgt'', IntV 1), (''class'', IntV 0)],
      [(''balance'', IntV 0), (''fnlwgt'', IntV 1), (''class'', IntV 0)],
      [(''balance'', IntV 0), (''fnlwgt'', IntV 1), (''class'', IntV 1)]]"

text \<open>The example of the specification for \<^verbatim>\<open>find_threshold\<close>.\<close>

definition age_example :: dataset where
  "age_example =
     [[(''age'', IntV 20), (''fnlwgt'', IntV 1), (''class'', IntV 0)],
      [(''age'', IntV 25), (''fnlwgt'', IntV 1), (''class'', IntV 0)],
      [(''age'', IntV 30), (''fnlwgt'', IntV 1), (''class'', IntV 1)],
      [(''age'', IntV 35), (''fnlwgt'', IntV 1), (''class'', IntV 1)]]"

text \<open>The number of points that a dictionary of counts has counted.\<close>

definition counts_total :: "counts \<Rightarrow> nat" where
  "counts_total cs = sum_list (map (\<lambda>(k, c0, c1). c0 + c1) cs)"


subsection \<open>Well-formed datasets\<close>







section \<open>Basic facts\<close>

lemma represents_integer_IntV: "represents_integer (IntV i)"
  by (simp add: represents_integer_def py_int_def)

lemma not_integer_red: "represents_integer (StrV ''red'') = False"
  by (simp add: represents_integer_def py_int_def int_of_string_def strip_def is_space_def
      is_digit_def)

lemma log_half: "log 2 (1 / 2) = - 1"
  by (simp add: log_divide)

lemma side_entropy_1_1: "side_entropy (Suc 0) (Suc 0) = - 1"
  by (simp add: side_entropy_def log_half)

lemmas eval_defs =
  first_point_def list_remove_def getitem_def majority_label_def is_class0_def is_class1_def
  get_information_gain_def get_counts_def class_entropy_def split_on_attribute_def
  find_baseline_attribute_def find_threshold_def py_sorted_def
  get_information_gain_threshold_def val_less_def py_int_def get_counts_threshold_def
  represents_integer_IntV not_integer_red side_entropy_1_1 split_on_attribute_threshold_def

lemma collect_map_Inr:
  "collect (map f xs) = Inr ys \<Longrightarrow> list_all2 (\<lambda>x y. f x = Inr y) xs ys"
  by (induction xs arbitrary: ys) (auto split: sum.splits)

lemma list_all2_set2:
  "list_all2 P xs ys \<Longrightarrow> y \<in> set ys \<Longrightarrow> \<exists>x\<in>set xs. P x y"
  by (induction rule: list_all2_induct) auto

lemma list_remove_length:
  "list_remove xs x = Inr ys \<Longrightarrow> Suc (length ys) = length xs"
  by (auto simp: list_remove_def length_remove1 split: if_splits) (cases xs; auto)

lemma fold_max_le:
  "fold max xs (a::nat) \<le> b \<longleftrightarrow> a \<le> b \<and> (\<forall>x\<in>set xs. x \<le> b)"
  by (induction xs arbitrary: a) auto

lemma tree_depth_le_iff:
  "tree_depth nd \<le> b \<longleftrightarrow> (\<forall>c\<in>set (children nd). Suc (tree_depth c) \<le> b)"
  by (cases nd) (auto simp: fold_max_le)

text \<open>
  What a successful call of the recursive builder returns: a leaf carrying the majority
  label, or a node whose children are the nodes made for the subsets, in order.
\<close>

lemma build_rec_cases:
  assumes "build_decision_tree_rec data cat attrs md d0 = Inr t"
  obtains (leaf) lab where "t = Node None [] lab cat None" "majority_label data = Inr lab"
  | (split) lab mx ba bt p0 v subsets kids where
    "t = Node (Some ba) kids lab cat bt" "majority_label data = Inr lab"
    "attrs \<noteq> []" "\<forall>m. md = Some m \<longrightarrow> d0 + 1 \<le> m"
    "select_attribute data attrs (- 1, None, None) = Inr (mx, Some ba, bt)"
    "first_point data = Inr p0" "getitem p0 ba = Inr v"
    "(if represents_integer v then split_on_attribute data ba bt
      else split_on_attribute data ba None) = Inr subsets"
    "list_all2 (\<lambda>s k. build_child data attrs ba md (d0 + 1) s = Inr k) subsets kids"
  using assms
  apply (subst (asm) build_decision_tree_rec.simps)
  by (auto simp: Let_def build_child_def split: sum.splits if_splits option.splits
      dest!: collect_map_Inr)

section \<open>Stopping on a pure node\<close>

text \<open>
  The condition under which the recursive builder returns a leaf, as the source has it:
  no attribute is left, or the class labels of the points are pairwise distinct, or the
  depth exceeds \<^verbatim>\<open>max_depth\<close>.
\<close>

lemma build_rec_stops_iff:
  assumes "build_decision_tree_rec data cat attrs md d0 = Inr t"
    and "collect (map (\<lambda>p. getitem p ''class'') data) = Inr cs"
  shows "attribute t = None \<longleftrightarrow>
           attrs = [] \<or> distinct cs \<or> (\<exists>m. md = Some m \<and> d0 + 1 > m)"
proof -
  have d: "length cs = length (remdups cs) \<longleftrightarrow> distinct cs"
    by (metis length_remdups_eq remdups_id_iff_distinct)
  show ?thesis
  proof (cases "attrs = [] \<or> distinct cs")
    case True
    with assms d show ?thesis
      by (subst (asm) build_decision_tree_rec.simps) (auto simp: Let_def split: sum.splits)
  next
    case False
    show ?thesis
    proof (cases "\<exists>m. md = Some m \<and> d0 + 1 > m")
      case True
      with assms d False show ?thesis
        by (subst (asm) build_decision_tree_rec.simps) (auto simp: Let_def split: sum.splits)
    next
      case no: False
      then have "(case md of None \<Rightarrow> False | Some m \<Rightarrow> d0 + 1 > m) = False"
        by (cases md) auto
      with assms d False have "attribute t \<noteq> None"
        by (subst (asm) build_decision_tree_rec.simps)
          (auto simp: Let_def split: sum.splits option.splits)
      with False no show ?thesis by auto
    qed
  qed
qed

text \<open>
  C1. The claim: on a non-empty dataset whose points all have one class, the builder
  returns a single leaf labelled with that class. The source stops when the class labels
  are pairwise distinct (\<^verbatim>\<open>len(data_classes) == len(set(data_classes))\<close>), not when they
  are all equal: on two points of class 0 with one attribute it splits on that attribute
  and returns a root with two children.
\<close>

theorem build_same_class_splits:
  "build_decision_tree same_class_data None =
     Inr (Node (Some ''color'')
            [Node None [] 0 (Some (StrV ''red'')) None,
             Node None [] 0 (Some (StrV ''blue'')) None]
            0 None None)"
  by (simp add: build_decision_tree_def same_class_data_def build_decision_tree_rec.simps
      eval_defs)

section \<open>The baseline attribute\<close>

text \<open>
  C4. The claim: when the baseline attribute is continuous, the labels returned are the
  majority labels of that attribute's counts at its own optimal threshold. The source
  computes the final threshold from the loop variable left over from the last iteration:
  here the chosen attribute is \<^verbatim>\<open>age\<close>, whose own threshold is 20 with majority labels
  1 and 1, and the labels returned are those of \<^verbatim>\<open>age\<close> at 11, the threshold of
  \<^verbatim>\<open>hours\<close>. No threshold is part of the result.
\<close>

theorem baseline_labels_at_foreign_threshold:
  "find_baseline_attribute baseline_data
     = Inr (''age'', [(StrV ''below'', 0), (StrV ''above'', 1)])
   \<and> find_threshold baseline_data ''age'' = Inr 20
   \<and> find_threshold baseline_data ''hours'' = Inr 11
   \<and> get_counts baseline_data ''age'' (Some 20)
     = Inr [(StrV ''below'', 1, 1), (StrV ''above'', 1, 1)]
   \<and> get_counts baseline_data ''age'' (Some 11)
     = Inr [(StrV ''below'', 1, 0), (StrV ''above'', 1, 2)]"
  by (simp add: baseline_data_def eval_defs)

text \<open>
  C5. The claim: the label attribute \<^verbatim>\<open>class\<close> is never a candidate of the baseline.
  The loop skips \<^verbatim>\<open>fnlwgt\<close> only; when \<^verbatim>\<open>class\<close> is the first key and no later
  attribute predicts strictly better, \<^verbatim>\<open>class\<close> itself is returned.
\<close>

theorem baseline_returns_class:
  "find_baseline_attribute class_first_data
     = Inr (''class'', [(StrV ''below'', 1), (StrV ''above'', 1)])"
  by (simp add: class_first_data_def eval_defs)

section \<open>The depth bound\<close>

lemma build_rec_depth_bound:
  "build_decision_tree_rec data cat attrs (Some m) d0 = Inr t \<Longrightarrow> d0 \<le> m
    \<Longrightarrow> int (tree_depth t) \<le> m - d0"
proof (induction "length attrs" arbitrary: data cat attrs d0 t rule: less_induct)
  case less
  from less.prems(1) show ?case
  proof (cases rule: build_rec_cases)
    case (leaf lab)
    with less.prems show ?thesis by simp
  next
    case (split lab mx ba bt p0 v subsets kids)
    have d: "d0 + 1 \<le> m" using split(4) by simp
    have "int (Suc (tree_depth k)) \<le> m - d0" if "k \<in> set kids" for k
    proof -
      from that split(9) obtain s where s: "s \<in> set subsets"
        and k: "build_child data attrs ba (Some m) (d0 + 1) s = Inr k"
        by (blast dest: list_all2_set2)
      show ?thesis
      proof (cases "length (fst s) = 0")
        case True
        with k d show ?thesis
          by (auto simp: build_child_def split: sum.splits)
      next
        case False
        with k obtain na where na: "list_remove attrs ba = Inr na"
          and r: "build_decision_tree_rec (fst s) (Some (snd s)) na (Some m) (d0 + 1) = Inr k"
          by (auto simp: build_child_def split: sum.splits)
        from na have "length na < length attrs"
          using list_remove_length by fastforce
        from less.hyps[OF this r d] show ?thesis by simp
      qed
    qed
    then have "\<forall>k\<in>set kids. Suc (tree_depth k) \<le> nat (m - d0)"
      by (metis nat_int nat_mono)
    then have "tree_depth t \<le> nat (m - d0)"
      using split(1) by (subst tree_depth_le_iff) simp
    then show ?thesis using d by linarith
  qed
qed

text \<open>
  C9. For a non-negative \<^verbatim>\<open>max_depth\<close> \<open>m\<close>, every tree that \<^verbatim>\<open>build_decision_tree\<close>
  returns has depth at most \<open>m\<close>: no path from the root to a leaf has more than \<open>m\<close>
  split edges.
\<close>

theorem build_max_depth:
  "0 \<le> m \<Longrightarrow> build_decision_tree data (Some m) = Inr t \<Longrightarrow> int (tree_depth t) \<le> m"
  using build_rec_depth_bound[of data None _ m 0 t]
  by (auto simp: build_decision_tree_def split: sum.splits)

theorem build_max_depth_witness:
  "(0::int) \<le> 1
   \<and> build_decision_tree same_class_data (Some 1) =
       Inr (Node (Some ''color'')
              [Node None [] 0 (Some (StrV ''red'')) None,
               Node None [] 0 (Some (StrV ''blue'')) None]
              0 None None)
   \<and> int (tree_depth (Node (Some ''color'')
              [Node None [] 0 (Some (StrV ''red'')) None,
               Node None [] 0 (Some (StrV ''blue'')) None]
              0 None None)) \<le> 1"
proof -
  have h0: "(0::int) \<le> 1" by simp
  have h: "build_decision_tree same_class_data (Some 1) =
       Inr (Node (Some ''color'')
              [Node None [] 0 (Some (StrV ''red'')) None,
               Node None [] 0 (Some (StrV ''blue'')) None]
              0 None None)"
    by (simp add: build_decision_tree_def same_class_data_def build_decision_tree_rec.simps
        eval_defs)
  from build_max_depth[OF h0 h] h0 h show ?thesis by blast
qed

section \<open>Classification of a record on a built tree\<close>



lemma select_attribute_inv:
  assumes "select_attribute data attrs (mx, b, t) = Inr (mx', b', t')"
    and "first_point data = Inr p0"
    and "choice_ok S p0 b t"
    and "set attrs \<subseteq> S"
  shows "choice_ok S p0 b' t'"
  using assms
proof (induction attrs arbitrary: mx b t)
  case Nil
  then show ?case by simp
next
  case (Cons a attrs)
  from Cons.prems(1,2) obtain v where v: "getitem p0 a = Inr v"
    by (auto split: sum.splits)
  from Cons.prems(4) have aS: "a \<in> S" and sub: "set attrs \<subseteq> S" by auto
  note IH = Cons.IH[OF _ Cons.prems(2) _ sub]
  show ?case
  proof (cases "represents_integer v")
    case True
    with Cons.prems(1,2) v obtain th g where th: "find_threshold data a = Inr th"
      and g: "get_information_gain data a (Some th) = Inr g"
      by (auto split: sum.splits)
    have r: "select_attribute data attrs (if g > mx then (g, Some a, Some th) else (mx, b, t))
            = Inr (mx', b', t')"
      using Cons.prems(1,2) v True th g by (simp split: if_splits)
    have "choice_ok S p0 (Some a) (Some th)"
      using aS v True by (simp add: choice_ok_def)
    with r Cons.prems(3) show ?thesis
      by (cases "g > mx") (auto intro: IH)
  next
    case False
    with Cons.prems(1,2) v obtain g where g: "get_information_gain data a None = Inr g"
      by (auto split: sum.splits)
    have r: "select_attribute data attrs (if g > mx then (g, Some a, None) else (mx, b, t))
            = Inr (mx', b', t')"
      using Cons.prems(1,2) v False g by (simp split: if_splits)
    have "choice_ok S p0 (Some a) None"
      using aS v False by (simp add: choice_ok_def)
    with r Cons.prems(3) show ?thesis
      by (cases "g > mx") (auto intro: IH)
  qed
qed



lemma split_threshold_loop_filter:
  "split_threshold_loop data a t (lo, hi) = Inr (lo', hi') \<Longrightarrow>
     lo' = lo @ filter (is_below a t) data \<and> hi' = hi @ filter (is_above a t) data"
  by (induction data a t "(lo, hi)" arbitrary: lo hi rule: split_threshold_loop.induct)
    (auto split: sum.splits if_splits simp: is_below_def is_above_def int_value_def)

lemma split_on_attribute_threshold_filter:
  "split_on_attribute_threshold data a t = Inr subsets \<Longrightarrow>
     subsets = [(filter (is_below a t) data, StrV ''below''),
                (filter (is_above a t) data, StrV ''above'')]"
  using split_threshold_loop_filter[of data a t "[]" "[]"]
  by (auto simp: split_on_attribute_threshold_def split: sum.splits)






section \<open>Continuous splits\<close>

lemma build_rec_category:
  "build_decision_tree_rec data cat attrs md d0 = Inr t \<Longrightarrow> category t = cat"
  by (erule build_rec_cases) auto

lemma build_child_category:
  "build_child data attrs a md d s = Inr k \<Longrightarrow> category k = Some (snd s)"
  by (auto simp: build_child_def split: if_splits sum.splits dest: build_rec_category)

text \<open>
  In a tree that the builder returns, every node with a threshold has exactly the two
  children \<^verbatim>\<open>'below'\<close> and \<^verbatim>\<open>'above'\<close>, in this order.
\<close>

lemma subnodes_self: "nd \<in> set (subnodes nd)"
  by (cases nd) simp

lemma subnodes_cases:
  "n \<in> set (subnodes nd) \<Longrightarrow> n = nd \<or> (\<exists>k\<in>set (children nd). n \<in> set (subnodes k))"
  by (cases nd) auto

lemma continuous_nodes_two_children:
  assumes "build_decision_tree_rec data cat attrs md d0 = Inr t"
    and "n \<in> set (subnodes t)" and "threshold n \<noteq> None"
  shows "map category (children n) = [Some (StrV ''below''), Some (StrV ''above'')]"
  using assms
proof (induction "length attrs" arbitrary: data cat attrs d0 t rule: less_induct)
  case less
  from less.prems(1) show ?case
  proof (cases rule: build_rec_cases)
    case (leaf lab)
    with less.prems(2,3) show ?thesis by simp
  next
    case (split lab mx ba bt p0 v subsets kids)
    from subnodes_cases[OF less.prems(2)] show ?thesis
    proof
      assume n: "n = t"
      with less.prems(3) split(1) obtain th where th: "bt = Some th" by auto
      have "choice_ok (set attrs) p0 (Some ba) bt"
        by (rule select_attribute_inv[OF split(5,6)]) (simp_all add: choice_ok_def)
      with th split(7) have "represents_integer v" by (auto simp: choice_ok_def)
      with split(8) th
      have subsets: "subsets = [(filter (is_below ba th) data, StrV ''below''),
                  (filter (is_above ba th) data, StrV ''above'')]"
        by (auto simp: split_on_attribute_def dest!: split_on_attribute_threshold_filter)
      with split(9) obtain b c where kids: "kids = [b, c]"
        and b: "build_child data attrs ba md (d0 + 1) (filter (is_below ba th) data, StrV ''below'') = Inr b"
        and c: "build_child data attrs ba md (d0 + 1) (filter (is_above ba th) data, StrV ''above'') = Inr c"
        by (auto simp: list_all2_Cons1)
      from n split(1) kids build_child_category[OF b] build_child_category[OF c]
      show ?thesis by simp
    next
      assume "\<exists>k\<in>set (children t). n \<in> set (subnodes k)"
      with split(1) obtain k where k: "k \<in> set kids" and nk: "n \<in> set (subnodes k)" by auto
      from k split(9) obtain s where s: "s \<in> set subsets"
        and bk: "build_child data attrs ba md (d0 + 1) s = Inr k"
        by (blast dest: list_all2_set2)
      show ?thesis
      proof (cases "length (fst s) = 0")
        case True
        with bk obtain l where "k = Node None [] l (Some (snd s)) None"
          by (auto simp: build_child_def split: sum.splits)
        with nk less.prems(3) show ?thesis by simp
      next
        case False
        with bk obtain na where na: "list_remove attrs ba = Inr na"
          and r: "build_decision_tree_rec (fst s) (Some (snd s)) na md (d0 + 1) = Inr k"
          by (auto simp: build_child_def split: sum.splits)
        from list_remove_length[OF na] have len: "length na < length attrs" by simp
        from less.hyps[OF len r nk less.prems(3)] show ?thesis .
      qed
    qed
  qed
qed

text \<open>
  C7. A call of the recursive builder that splits on an attribute whose value in the first
  point is an integer literal returns a node with a threshold \<open>t\<close> and exactly two
  children, in this order: the node with category \<^verbatim>\<open>'below'\<close>, made for the points whose
  value is less than \<open>t\<close>, and the node with category \<^verbatim>\<open>'above'\<close>, made for the points
  whose value is at least \<open>t\<close>. On such a node the classifier sends a record with an
  integer value \<open>i\<close> for the attribute to \<^verbatim>\<open>children[0]\<close> when \<open>i < t\<close> and to
  \<^verbatim>\<open>children[1]\<close> otherwise: its result is the result on that child, which is the
  child's label when the child is a leaf. Every inner node of a built tree is returned
  by such a call (lemma \<open>build_rec_cases\<close>).
\<close>

theorem continuous_split_children:
  assumes "build_decision_tree_rec data cat attrs md d0 = Inr nd"
    and "attribute nd = Some a"
    and "first_point data = Inr p0" and "getitem p0 a = Inr v" and "represents_integer v"
  shows "\<exists>t b c. threshold nd = Some t \<and> children nd = [b, c]
      \<and> category b = Some (StrV ''below'') \<and> category c = Some (StrV ''above'')
      \<and> build_child data attrs a md (d0 + 1) (filter (is_below a t) data, StrV ''below'') = Inr b
      \<and> build_child data attrs a md (d0 + 1) (filter (is_above a t) data, StrV ''above'') = Inr c
      \<and> (\<forall>item w i. getitem item a = Inr w \<longrightarrow> py_int w = Inr i \<longrightarrow>
            decision_tree_classify item nd =
              (if i < t then decision_tree_classify item (children nd ! 0)
               else decision_tree_classify item (children nd ! 1)))
      \<and> (\<forall>item. (children b = [] \<longrightarrow> decision_tree_classify item b = Inr (label b))
            \<and> (children c = [] \<longrightarrow> decision_tree_classify item c = Inr (label c)))"
  using assms(1)
proof (cases rule: build_rec_cases)
  case (leaf lab)
  with assms(2) show ?thesis by simp
next
  case (split lab mx ba bt p0' v' subsets kids)
  from split(1) assms(2) have ba: "ba = a" by simp
  from split(6,7) assms(3,4) ba have v': "v' = v" by simp
  have "choice_ok (set attrs) p0 (Some a) bt"
    using select_attribute_inv[OF split(5) assms(3), of "set attrs"] ba
    by (simp add: choice_ok_def)
  with assms(4,5) obtain t where t: "bt = Some t"
    by (auto simp: choice_ok_def)
  from split(8) ba v' assms(5) t
  have subsets: "subsets = [(filter (is_below a t) data, StrV ''below''),
                  (filter (is_above a t) data, StrV ''above'')]"
    by (auto simp: split_on_attribute_def dest!: split_on_attribute_threshold_filter)
  with split(9) ba obtain b c where kids: "kids = [b, c]"
    and b: "build_child data attrs a md (d0 + 1) (filter (is_below a t) data, StrV ''below'') = Inr b"
    and c: "build_child data attrs a md (d0 + 1) (filter (is_above a t) data, StrV ''above'') = Inr c"
    by (auto simp: list_all2_Cons1)
  have cl: "decision_tree_classify item nd =
              (if i < t then decision_tree_classify item (children nd ! 0)
               else decision_tree_classify item (children nd ! 1))"
    if "getitem item a = Inr w" "py_int w = Inr i" for item w i
    using that split(1) kids t ba
    by (subst decision_tree_classify.simps) (simp add: represents_integer_def)
  have lf: "decision_tree_classify item k = Inr (label k)" if "children k = []" for item k
    using that by (subst decision_tree_classify.simps) simp
  have "threshold nd = Some t \<and> children nd = [b, c]
      \<and> category b = Some (StrV ''below'') \<and> category c = Some (StrV ''above'')"
    using split(1) t kids build_child_category[OF b] build_child_category[OF c] by simp
  moreover have "\<forall>item w i. getitem item a = Inr w \<longrightarrow> py_int w = Inr i \<longrightarrow>
            decision_tree_classify item nd =
              (if i < t then decision_tree_classify item (children nd ! 0)
               else decision_tree_classify item (children nd ! 1))"
    using cl by blast
  moreover have "\<forall>item. (children b = [] \<longrightarrow> decision_tree_classify item b = Inr (label b))
            \<and> (children c = [] \<longrightarrow> decision_tree_classify item c = Inr (label c))"
    using lf by blast
  ultimately show ?thesis using b c by blast
qed

theorem continuous_split_children_witness:
  "build_decision_tree_rec balance_data None [''balance''] None 0 = Inr balance_tree
   \<and> attribute balance_tree = Some ''balance''
   \<and> first_point balance_data = Inr (hd balance_data)
   \<and> getitem (hd balance_data) ''balance'' = Inr (IntV (- 1))
   \<and> represents_integer (IntV (- 1))
   \<and> (\<exists>t b c. threshold balance_tree = Some t \<and> children balance_tree = [b, c]
      \<and> category b = Some (StrV ''below'') \<and> category c = Some (StrV ''above'')
      \<and> build_child balance_data [''balance''] ''balance'' None (0 + 1)
            (filter (is_below ''balance'' t) balance_data, StrV ''below'') = Inr b
      \<and> build_child balance_data [''balance''] ''balance'' None (0 + 1)
            (filter (is_above ''balance'' t) balance_data, StrV ''above'') = Inr c
      \<and> (\<forall>item w i. getitem item ''balance'' = Inr w \<longrightarrow> py_int w = Inr i \<longrightarrow>
            decision_tree_classify item balance_tree =
              (if i < t then decision_tree_classify item (children balance_tree ! 0)
               else decision_tree_classify item (children balance_tree ! 1)))
      \<and> (\<forall>item. (children b = [] \<longrightarrow> decision_tree_classify item b = Inr (label b))
            \<and> (children c = [] \<longrightarrow> decision_tree_classify item c = Inr (label c))))
   \<and> threshold balance_tree = Some 0
   \<and> decision_tree_classify [(''balance'', IntV (- 3))] balance_tree = Inr 0
   \<and> decision_tree_classify [(''balance'', IntV 0)] balance_tree = Inr 1
   \<and> decision_tree_classify [(''balance'', StrV ''7'')] balance_tree = Inr 1"
proof -
  have h1: "build_decision_tree_rec balance_data None [''balance''] None 0 = Inr balance_tree"
    by (simp add: balance_data_def balance_tree_def build_decision_tree_rec.simps eval_defs
        log_half)
  have h2: "attribute balance_tree = Some ''balance''"
    by (simp add: balance_tree_def)
  have h3: "first_point balance_data = Inr (hd balance_data)"
    by (simp add: first_point_def balance_data_def)
  have h4: "getitem (hd balance_data) ''balance'' = Inr (IntV (- 1))"
    by (simp add: getitem_def balance_data_def)
  have h5: "represents_integer (IntV (- 1))"
    by (rule represents_integer_IntV)
  note concl = continuous_split_children[OF h1 h2 h3 h4 h5]
  from concl obtain t b c where t: "threshold balance_tree = Some t"
    and kids: "children balance_tree = [b, c]"
    and route: "\<And>item w i. getitem item ''balance'' = Inr w \<Longrightarrow> py_int w = Inr i \<Longrightarrow>
            decision_tree_classify item balance_tree =
              (if i < t then decision_tree_classify item (children balance_tree ! 0)
               else decision_tree_classify item (children balance_tree ! 1))"
    and leaf_b: "\<And>item. children b = [] \<Longrightarrow> decision_tree_classify item b = Inr (label b)"
    and leaf_c: "\<And>item. children c = [] \<Longrightarrow> decision_tree_classify item c = Inr (label c)"
    by blast
  from t have t0: "t = 0" by (simp add: balance_tree_def)
  from kids have bc: "b = Node None [] 0 (Some (StrV ''below'')) None"
    "c = Node None [] 1 (Some (StrV ''above'')) None"
    by (simp_all add: balance_tree_def)
  then have b: "children b = []" "label b = 0" and c: "children c = []" "label c = 1"
    by simp_all
  have h6: "threshold balance_tree = Some 0"
    by (simp add: balance_tree_def)
  have "decision_tree_classify [(''balance'', IntV (- 3))] balance_tree
          = decision_tree_classify [(''balance'', IntV (- 3))] b"
    using route[of "[(''balance'', IntV (- 3))]" "IntV (- 3)" "- 3"] kids t0
    by (simp add: getitem_def py_int_def)
  with leaf_b[OF b(1)] b(2)
  have h7: "decision_tree_classify [(''balance'', IntV (- 3))] balance_tree = Inr 0"
    by simp
  have "decision_tree_classify [(''balance'', IntV 0)] balance_tree
          = decision_tree_classify [(''balance'', IntV 0)] c"
    using route[of "[(''balance'', IntV 0)]" "IntV 0" 0] kids t0
    by (simp add: getitem_def py_int_def)
  with leaf_c[OF c(1)] c(2)
  have h8: "decision_tree_classify [(''balance'', IntV 0)] balance_tree = Inr 1"
    by simp
  have p7: "py_int (StrV ''7'') = Inr 7"
    by (simp add: py_int_def int_of_string_def strip_def is_space_def is_digit_def
        digit_val_def)
  have "decision_tree_classify [(''balance'', StrV ''7'')] balance_tree
          = decision_tree_classify [(''balance'', StrV ''7'')] c"
    using route[of "[(''balance'', StrV ''7'')]" "StrV ''7''" 7] kids t0 p7
    by (simp add: getitem_def)
  with leaf_c[OF c(1)] c(2)
  have h9: "decision_tree_classify [(''balance'', StrV ''7'')] balance_tree = Inr 1"
    by simp
  from concl h1 h2 h3 h4 h5 h6 h7 h8 h9 show ?thesis
    by blast
qed

section \<open>Unseen categories\<close>





section \<open>The threshold of a continuous attribute\<close>

lemma side_entropy_neg: "0 < c0 \<Longrightarrow> 0 < c1 \<Longrightarrow> side_entropy c0 c1 < 0"
proof -
  assume a: "0 < c0" "0 < c1"
  have "log 2 (real c0 / real (c0 + c1)) < 0" "log 2 (real c1 / real (c0 + c1)) < 0"
    using a by simp_all
  moreover have "0 < real c0 / real (c0 + c1)" "0 < real c1 / real (c0 + c1)"
    using a by simp_all
  ultimately show ?thesis
    unfolding side_entropy_def
    by (meson add_neg_neg mult_pos_neg)
qed

lemma log_2_4: "log 2 4 = 2"
proof -
  have "log 2 (2 ^ 2) = real 2 * log 2 2" by (rule log_nat_power) simp
  then show ?thesis by simp
qed

lemma log_2_3: "4 / 3 < log 2 3"
proof -
  have "log 2 (2 ^ 4) < log 2 (3 ^ 3)"
    by simp
  moreover have "log 2 (2 ^ 4) = real 4 * log 2 2" by (rule log_nat_power) simp
  moreover have "log 2 (3 ^ 3) = real 3 * log 2 3" by (rule log_nat_power) simp
  moreover have "log 2 2 = (1::real)" by simp
  ultimately show ?thesis by linarith
qed

lemma log_quarter: "log 2 (1 / 4) = - 2"
  by (simp add: log_divide log_2_4)

lemma log_three_quarters: "log 2 (3 / 4) = log 2 3 - 2"
  by (simp add: log_divide log_2_4)

lemma candidates_values:
  "v \<in> set (threshold_candidates a ds prev tested) \<Longrightarrow> \<exists>d\<in>set ds. getitem d a = Inr v"
  by (induction ds arbitrary: prev tested) (auto split: sum.splits if_splits)

lemma find_threshold_loop_result:
  assumes "find_threshold_loop score a ds prev mx best tested = Inr r"
  shows "(r = best \<and> (\<forall>c\<in>set (threshold_candidates a ds prev tested).
                        \<exists>g. score c = Inr g \<and> g \<le> mx))
       \<or> (\<exists>pre post g. threshold_candidates a ds prev tested = pre @ r # post
             \<and> score r = Inr g \<and> mx < g
             \<and> (\<forall>p\<in>set pre. \<exists>h. score p = Inr h \<and> h < g)
             \<and> (\<forall>q\<in>set post. \<exists>h. score q = Inr h \<and> h \<le> g))"
  using assms
proof (induction ds arbitrary: prev mx best tested)
  case Nil
  then show ?case by simp
next
  case (Cons d ds)
  from Cons.prems obtain v c where v: "getitem d a = Inr v" and c: "getitem d ''class'' = Inr c"
    by (auto split: sum.splits)
  show ?case
  proof (cases "v \<notin> set tested \<and> c \<noteq> prev")
    case False
    with Cons.prems v c
    have "find_threshold_loop score a ds c mx best tested = Inr r"
      by (auto split: if_splits)
    moreover have "threshold_candidates a (d # ds) prev tested
                = threshold_candidates a ds c tested"
      using False v c by auto
    ultimately show ?thesis using Cons.IH by simp
  next
    case True
    with Cons.prems v c obtain g where g: "score v = Inr g"
      by (auto split: sum.splits)
    have cs: "threshold_candidates a (d # ds) prev tested
                = v # threshold_candidates a ds c (tested @ [v])"
      using True v c by simp
    let ?rest = "threshold_candidates a ds c (tested @ [v])"
    show ?thesis
    proof (cases "g > mx")
      case gt: True
      with Cons.prems v c True g
      have "find_threshold_loop score a ds c g v (tested @ [v]) = Inr r"
        by simp
      from Cons.IH[OF this] show ?thesis
      proof
        assume "r = v \<and> (\<forall>c\<in>set ?rest. \<exists>h. score c = Inr h \<and> h \<le> g)"
        then have "threshold_candidates a (d # ds) prev tested = [] @ r # ?rest
             \<and> score r = Inr g \<and> mx < g
             \<and> (\<forall>p\<in>set []. \<exists>h. score p = Inr h \<and> h < g)
             \<and> (\<forall>q\<in>set ?rest. \<exists>h. score q = Inr h \<and> h \<le> g)"
          using cs g gt by simp
        then show ?thesis by blast
      next
        assume "\<exists>pre post g'. ?rest = pre @ r # post
             \<and> score r = Inr g' \<and> g < g'
             \<and> (\<forall>p\<in>set pre. \<exists>h. score p = Inr h \<and> h < g')
             \<and> (\<forall>q\<in>set post. \<exists>h. score q = Inr h \<and> h \<le> g')"
        then obtain pre post g' where *: "?rest = pre @ r # post"
             "score r = Inr g'" "g < g'"
             "\<forall>p\<in>set pre. \<exists>h. score p = Inr h \<and> h < g'"
             "\<forall>q\<in>set post. \<exists>h. score q = Inr h \<and> h \<le> g'"
          by blast
        have "threshold_candidates a (d # ds) prev tested = (v # pre) @ r # post
             \<and> score r = Inr g' \<and> mx < g'
             \<and> (\<forall>p\<in>set (v # pre). \<exists>h. score p = Inr h \<and> h < g')
             \<and> (\<forall>q\<in>set post. \<exists>h. score q = Inr h \<and> h \<le> g')"
          using cs * g gt by simp
        then show ?thesis by blast
      qed
    next
      case le: False
      with Cons.prems v c True g
      have "find_threshold_loop score a ds c mx best (tested @ [v]) = Inr r"
        by simp
      from Cons.IH[OF this] show ?thesis
      proof
        assume "r = best \<and> (\<forall>c\<in>set ?rest. \<exists>h. score c = Inr h \<and> h \<le> mx)"
        then show ?thesis using cs g le by simp
      next
        assume "\<exists>pre post g'. ?rest = pre @ r # post
             \<and> score r = Inr g' \<and> mx < g'
             \<and> (\<forall>p\<in>set pre. \<exists>h. score p = Inr h \<and> h < g')
             \<and> (\<forall>q\<in>set post. \<exists>h. score q = Inr h \<and> h \<le> g')"
        then obtain pre post g' where *: "?rest = pre @ r # post"
             "score r = Inr g'" "mx < g'"
             "\<forall>p\<in>set pre. \<exists>h. score p = Inr h \<and> h < g'"
             "\<forall>q\<in>set post. \<exists>h. score q = Inr h \<and> h \<le> g'"
          by blast
        have "threshold_candidates a (d # ds) prev tested = (v # pre) @ r # post
             \<and> score r = Inr g' \<and> mx < g'
             \<and> (\<forall>p\<in>set (v # pre). \<exists>h. score p = Inr h \<and> h < g')
             \<and> (\<forall>q\<in>set post. \<exists>h. score q = Inr h \<and> h \<le> g')"
          using cs * g le by simp
        then show ?thesis by blast
      qed
    qed
  qed
qed

lemma collect_length: "collect rs = Inr xs \<Longrightarrow> length xs = length rs"
  by (induction rs arbitrary: xs) (auto split: sum.splits)

lemma int_keys_length: "int_keys vs = Some ks \<Longrightarrow> length ks = length vs"
  by (induction vs arbitrary: ks rule: int_keys.induct) auto

lemma str_keys_length: "str_keys vs = Some ks \<Longrightarrow> length ks = length vs"
  by (induction vs arbitrary: ks rule: str_keys.induct) auto

lemma sort_zip_set:
  "length ks = length xs \<Longrightarrow> set (map snd (sort_key fst (zip ks xs))) = set xs"
proof -
  assume "length ks = length xs"
  then have "set (map snd (zip ks xs)) = set xs"
    by (simp only: map_snd_zip)
  then show ?thesis by simp
qed

lemma py_sorted_set: "py_sorted data a = Inr sd \<Longrightarrow> set sd = set data"
proof -
  assume a: "py_sorted data a = Inr sd"
  then obtain ks where ks: "collect (map (\<lambda>d. getitem d a) data) = Inr ks"
    by (auto simp: py_sorted_def split: sum.splits)
  then have len: "length ks = length data"
    by (auto dest: collect_length)
  show ?thesis
  proof (cases "int_keys ks")
    case (Some ik)
    with a ks len show ?thesis
      by (auto simp: py_sorted_def sort_zip_set dest!: int_keys_length simp del: set_map)
  next
    case None
    with a ks obtain ss where "str_keys ks = Some ss"
      and "sd = map snd (sort_key fst (zip ss data))"
      by (auto simp: py_sorted_def split: option.splits)
    with len show ?thesis
      by (auto simp: sort_zip_set dest!: str_keys_length simp del: set_map)
  qed
qed

text \<open>
  The result is 0 or the integer of a value that some point has for the attribute. This
  does not depend on how two scores compare: the loop only ever keeps the initial
  \<^verbatim>\<open>best_threshold\<close> or a value that it tested.
\<close>

lemma find_threshold_value:
  assumes "find_threshold data a = Inr t"
  shows "t = 0 \<or> (\<exists>d\<in>set data. \<exists>v. getitem d a = Inr v \<and> py_int v = Inr t)"
proof -
  from assms obtain sd best where sd: "py_sorted data a = Inr sd"
    and loop: "find_threshold_loop (get_information_gain_threshold sd a) a sd (IntV (- 1)) 0
                 (IntV 0) [] = Inr best"
    and t: "py_int best = Inr t"
    by (auto simp: find_threshold_def split: sum.splits)
  show ?thesis
  proof (cases "best = IntV 0")
    case True
    with t show ?thesis by (simp add: py_int_def)
  next
    case False
    from find_threshold_loop_result[OF loop] False
    obtain pre post where "threshold_candidates a sd (IntV (- 1)) [] = pre @ best # post"
      by blast
    then have "best \<in> set (threshold_candidates a sd (IntV (- 1)) [])" by simp
    from candidates_values[OF this] obtain d where "d \<in> set sd" "getitem d a = Inr best"
      by blast
    with py_sorted_set[OF sd] t show ?thesis by blast
  qed
qed

text \<open>
  The initial \<^verbatim>\<open>best_threshold\<close> is 0, and 0 can also be a value that the loop keeps: on
  \<open>zero_data\<close> the candidates are \<open>-1\<close> and \<open>0\<close>, the candidate 0 scores strictly
  above 0 and is kept, and the result is 0.
\<close>

lemma find_threshold_zero_candidate:
  "find_threshold zero_data ''balance'' = Inr 0
   \<and> py_sorted zero_data ''balance'' = Inr zero_data
   \<and> threshold_candidates ''balance'' zero_data (IntV (- 1)) [] = [IntV (- 1), IntV 0]
   \<and> gain_positive (get_information_gain_threshold zero_data ''balance'' (IntV 0))
   \<and> gain_positive (get_information_gain zero_data ''balance'' (Some 0))"
proof -
  have 1: "find_threshold zero_data ''balance'' = Inr 0"
    by (simp add: zero_data_def eval_defs del: side_entropy_1_1)
  have 2: "py_sorted zero_data ''balance'' = Inr zero_data"
    by (simp add: zero_data_def py_sorted_def getitem_def)
  have 3: "threshold_candidates ''balance'' zero_data (IntV (- 1)) [] = [IntV (- 1), IntV 0]"
    by (simp add: zero_data_def getitem_def)
  have "get_information_gain_threshold zero_data ''balance'' (IntV 0)
          = Inr (- (side_entropy (Suc 0) (Suc (Suc (Suc 0))) / 2)
                 - side_entropy (Suc (Suc (Suc 0))) (Suc 0) / 2)"
    by (simp add: zero_data_def eval_defs del: side_entropy_1_1)
  moreover have "side_entropy (Suc 0) (Suc (Suc (Suc 0))) < 0"
    "side_entropy (Suc (Suc (Suc 0))) (Suc 0) < 0"
    by (simp_all add: side_entropy_neg)
  ultimately have 4: "gain_positive (get_information_gain_threshold zero_data ''balance'' (IntV 0))"
    by (simp add: gain_positive_def)
  have "get_information_gain zero_data ''balance'' (Some 0) = Inr (3 / 4 * log 2 3 - 1)"
    by (simp add: zero_data_def eval_defs log_half log_quarter log_three_quarters
        del: side_entropy_1_1) (simp add: field_simps)
  then have 5: "gain_positive (get_information_gain zero_data ''balance'' (Some 0))"
    using log_2_3 by (simp add: gain_positive_def)
  from 1 2 3 4 5 show ?thesis by blast
qed

text \<open>
  C6. \<^verbatim>\<open>find_threshold\<close> on the example of the specification: four points with the
  ages 20, 25, 30, 35 and the classes 0, 0, 1, 1. The data is sorted already, and the
  candidates are 20 and 30. \<^verbatim>\<open>get_information_gain_threshold\<close> returns 0 for both: it
  returns 0 as soon as one side of the split has no point of one class, and the
  conditional entropy of the split otherwise, never the information gain that its
  documentation names. No candidate therefore exceeds the initial \<^verbatim>\<open>max_info_gain\<close> of
  0, and the result is 0, although the split at the candidate 30 separates the classes
  and has information gain 1 in \<^verbatim>\<open>get_information_gain\<close>. Every number in this evaluation
  (0, 1, \<open>1 / 2\<close> and its logarithm \<open>-1\<close>) is exact in double precision.
\<close>

theorem find_threshold_spec_example:
  "find_threshold age_example ''age'' = Inr 0
   \<and> py_sorted age_example ''age'' = Inr age_example
   \<and> threshold_candidates ''age'' age_example (IntV (- 1)) [] = [IntV 20, IntV 30]
   \<and> get_information_gain_threshold age_example ''age'' (IntV 20) = Inr 0
   \<and> get_information_gain_threshold age_example ''age'' (IntV 30) = Inr 0
   \<and> get_information_gain age_example ''age'' (Some 30) = Inr 1"
proof -
  have 1: "find_threshold age_example ''age'' = Inr 0"
    by (simp add: age_example_def eval_defs)
  have 2: "py_sorted age_example ''age'' = Inr age_example"
    by (simp add: age_example_def py_sorted_def getitem_def)
  have 3: "threshold_candidates ''age'' age_example (IntV (- 1)) [] = [IntV 20, IntV 30]"
    by (simp add: age_example_def getitem_def)
  have 4: "get_information_gain_threshold age_example ''age'' (IntV 20) = Inr 0"
    by (simp add: age_example_def eval_defs)
  have 5: "get_information_gain_threshold age_example ''age'' (IntV 30) = Inr 0"
    by (simp add: age_example_def eval_defs)
  have 6: "get_information_gain age_example ''age'' (Some 30) = Inr 1"
    by (simp add: age_example_def eval_defs log_half)
  from 1 2 3 4 5 6 show ?thesis by blast
qed

section \<open>Bounds on the information gain\<close>




lemma counts_total_count_add: "counts_total (count_add k z cs) = Suc (counts_total cs)"
  by (induction k z cs rule: count_add.induct) (auto simp: counts_total_def)

lemma get_counts_loop_sum:
  "get_counts_loop data a cs = Inr cs' \<Longrightarrow> counts_total cs' = counts_total cs + length data"
  by (induction data a cs rule: get_counts_loop.induct)
    (auto split: sum.splits simp: counts_total_count_add)

lemma get_counts_threshold_loop_sum:
  "get_counts_threshold_loop data a t ((b0, b1), (a0, a1)) = Inr ((b0', b1'), (a0', a1')) \<Longrightarrow>
     b0' + b1' + a0' + a1' = b0 + b1 + a0 + a1 + length data"
  by (induction data a t "((b0, b1), (a0, a1))" arbitrary: b0 b1 a0 a1
      rule: get_counts_threshold_loop.induct)
    (auto split: sum.splits if_splits)

lemma get_counts_sum:
  "get_counts data a thr = Inr cs \<Longrightarrow> counts_total cs = length data"
proof (cases thr)
  case None
  assume "get_counts data a thr = Inr cs"
  with None show ?thesis
    using get_counts_loop_sum[of data a "[]" cs] by (simp add: get_counts_def counts_total_def)
next
  case (Some t)
  assume "get_counts data a thr = Inr cs"
  with Some obtain b0 b1 a0 a1 where
    l: "get_counts_threshold_loop data a t ((0, 0), (0, 0)) = Inr ((b0, b1), (a0, a1))"
    and cs: "cs = [(StrV ''below'', b0, b1), (StrV ''above'', a0, a1)]"
    by (auto simp: get_counts_def get_counts_threshold_def split: sum.splits)
  from get_counts_threshold_loop_sum[OF l] cs show ?thesis
    by (simp add: counts_total_def)
qed



lemma conditional_entropy_loop_skip:
  "conditional_entropy_loop cs n acc = Inr r \<Longrightarrow> \<forall>(k, c0, c1)\<in>set cs. c0 = 0 \<or> c1 = 0
     \<Longrightarrow> r = acc"
  by (induction cs n acc rule: conditional_entropy_loop.induct) (auto split: if_splits)


lemma sum_list_fst_le_total:
  fixes cs :: counts
  shows "sum_list (map (\<lambda>(category, c0, c1). c0) cs) + sum_list (map (\<lambda>(category, c0, c1). c1) cs)
     = counts_total cs"
  by (induction cs) (auto simp: counts_total_def)

lemma sum_list_pos0:
  fixes cs :: counts
  shows "(k, c0, c1) \<in> set cs \<Longrightarrow> c0 \<le> sum_list (map (\<lambda>(category, c0, c1). c0) cs)"
  by (induction cs) auto

lemma sum_list_pos1:
  fixes cs :: counts
  shows "(k, c0, c1) \<in> set cs \<Longrightarrow> c1 \<le> sum_list (map (\<lambda>(category, c0, c1). c1) cs)"
  by (induction cs) auto



section \<open>Termination and success of the builder\<close>



































section \<open>The information gain in exact arithmetic\<close>

text \<open>
  With real numbers for floats, the value of \<^verbatim>\<open>get_information_gain\<close> is the mutual
  information of the class and the category, which is never negative. The proof compares
  each category's term with the class entropy through \<open>ln x \<le> x - 1\<close>.
\<close>

lemma log_ratio_lower:
  fixes c t s n :: real
  assumes "0 < c" "0 < t" "0 < s" "0 < n"
  shows "c / n - s / n * (t / n) \<le> c / n * (log 2 (c / s) - log 2 (t / n)) * ln 2"
proof -
  define x where "x = (s * t) / (c * n)"
  have x: "0 < x" using assms by (simp add: x_def)
  have "ln x \<le> x - 1" using x by (rule ln_le_minus_one)
  then have "1 - x \<le> - ln x" by simp
  moreover have "- ln x = ln (c / s) - ln (t / n)"
    using assms by (simp add: x_def ln_div ln_mult)
  ultimately have "1 - x \<le> ln (c / s) - ln (t / n)" by simp
  then have "c / n * (1 - x) \<le> c / n * (ln (c / s) - ln (t / n))"
    using assms by (intro mult_left_mono) simp_all
  moreover have "c / n * (1 - x) = c / n - s / n * (t / n)"
    using assms by (simp add: x_def field_simps)
  moreover have "(log 2 (c / s) - log 2 (t / n)) * ln 2 = ln (c / s) - ln (t / n)"
    by (simp add: log_def field_simps)
  ultimately show ?thesis by (simp add: mult.assoc)
qed

lemma category_term_lower:
  fixes c0 c1 t0 t1 :: nat
  assumes "0 < c0" "0 < c1" "c0 \<le> t0" "c1 \<le> t1"
  shows "real c0 / real (t0 + t1) * log 2 (real t0 / real (t0 + t1))
         + real c1 / real (t0 + t1) * log 2 (real t1 / real (t0 + t1))
         \<le> real (c0 + c1) / real (t0 + t1) * side_entropy c0 c1"
proof -
  define n where "n = real (t0 + t1)"
  define s where "s = real (c0 + c1)"
  define x0 where "x0 = real c0"
  define x1 where "x1 = real c1"
  define y0 where "y0 = real t0"
  define y1 where "y1 = real t1"
  have n: "n = y0 + y1" and s: "s = x0 + x1"
    by (simp_all add: n_def s_def x0_def x1_def y0_def y1_def)
  have pos: "0 < x0" "0 < x1" "0 < y0" "0 < y1" "0 < s" "0 < n"
    using assms by (simp_all add: n_def s_def x0_def x1_def y0_def y1_def)
  have a: "x0 / n - s / n * (y0 / n) \<le> x0 / n * (log 2 (x0 / s) - log 2 (y0 / n)) * ln 2"
    using pos by (intro log_ratio_lower)
  have b: "x1 / n - s / n * (y1 / n) \<le> x1 / n * (log 2 (x1 / s) - log 2 (y1 / n)) * ln 2"
    using pos by (intro log_ratio_lower)
  have "s / n * (y0 / n) + s / n * (y1 / n) = s / n * ((y0 + y1) / n)"
    by (simp add: distrib_left add_divide_distrib)
  also have "\<dots> = s / n" using pos n by simp
  finally have c: "s / n * (y0 / n) + s / n * (y1 / n) = s / n" .
  have d: "x0 / n + x1 / n = s / n" by (simp add: s add_divide_distrib)
  from a b c d
  have "0 \<le> x0 / n * (log 2 (x0 / s) - log 2 (y0 / n)) * ln 2
            + x1 / n * (log 2 (x1 / s) - log 2 (y1 / n)) * ln 2"
    by linarith
  then have "0 \<le> (x0 / n * (log 2 (x0 / s) - log 2 (y0 / n))
                   + x1 / n * (log 2 (x1 / s) - log 2 (y1 / n))) * ln 2"
    by (simp add: distrib_right)
  then have "0 \<le> x0 / n * (log 2 (x0 / s) - log 2 (y0 / n))
                   + x1 / n * (log 2 (x1 / s) - log 2 (y1 / n))"
    by (simp add: zero_le_mult_iff)
  then have e: "x0 / n * log 2 (y0 / n) + x1 / n * log 2 (y1 / n)
                \<le> x0 / n * log 2 (x0 / s) + x1 / n * log 2 (x1 / s)"
    by (simp add: right_diff_distrib)
  have "s / n * (x0 / s * log 2 (x0 / s) + x1 / s * log 2 (x1 / s))
      = (s / n * (x0 / s)) * log 2 (x0 / s) + (s / n * (x1 / s)) * log 2 (x1 / s)"
    by (simp add: distrib_left mult.assoc)
  also have "s / n * (x0 / s) = x0 / n" using pos by simp
  also have "s / n * (x1 / s) = x1 / n" using pos by simp
  finally have f: "s / n * (x0 / s * log 2 (x0 / s) + x1 / s * log 2 (x1 / s))
      = x0 / n * log 2 (x0 / s) + x1 / n * log 2 (x1 / s)" .
  from e f show ?thesis
    unfolding side_entropy_def n_def s_def x0_def x1_def y0_def y1_def by simp
qed

lemma skipped_term_upper:
  fixes c t n :: nat
  assumes "c \<le> t" "t \<le> n"
  shows "real c / real n * log 2 (real t / real n) \<le> 0"
proof (cases "c = 0")
  case True
  then show ?thesis by simp
next
  case False
  with assms have "0 < real t / real n" "real t / real n \<le> 1" by simp_all
  then have "log 2 (real t / real n) \<le> 0" by simp
  then show ?thesis by (intro mult_nonneg_nonpos) simp_all
qed

lemma conditional_entropy_loop_lower:
  fixes cs :: counts
  assumes "conditional_entropy_loop cs n acc = Inr r" "0 < n" "n = t0 + t1"
    and "\<forall>(k, c0, c1)\<in>set cs. c0 \<le> t0 \<and> c1 \<le> t1"
  shows "acc + real (sum_list (map (\<lambda>(k, c0, c1). c0) cs)) / real n * log 2 (real t0 / real n)
             + real (sum_list (map (\<lambda>(k, c0, c1). c1) cs)) / real n * log 2 (real t1 / real n)
         \<le> r"
  using assms(1,4)
proof (induction cs arbitrary: acc)
  case Nil
  then show ?case by simp
next
  case (Cons x cs)
  obtain k c0 c1 where x: "x = (k, c0, c1)" by (cases x)
  define l0 where "l0 = log 2 (real t0 / real n)"
  define l1 where "l1 = log 2 (real t1 / real n)"
  define S0 where "S0 = real (sum_list (map (\<lambda>(k, c0, c1). c0) cs))"
  define S1 where "S1 = real (sum_list (map (\<lambda>(k, c0, c1). c1) cs))"
  from Cons.prems(2) x have le: "c0 \<le> t0" "c1 \<le> t1"
    and rest: "\<forall>(k, c0, c1)\<in>set cs. c0 \<le> t0 \<and> c1 \<le> t1" by auto
  have A: "real (sum_list (map (\<lambda>(k, c0, c1). c0) (x # cs))) / real n * log 2 (real t0 / real n)
             = real c0 / real n * l0 + S0 / real n * l0"
    using x unfolding l0_def S0_def by (simp add: add_divide_distrib distrib_right)
  have B: "real (sum_list (map (\<lambda>(k, c0, c1). c1) (x # cs))) / real n * log 2 (real t1 / real n)
             = real c1 / real n * l1 + S1 / real n * l1"
    using x unfolding l1_def S1_def by (simp add: add_divide_distrib distrib_right)
  show ?case
  proof (cases "c0 = 0 \<or> c1 = 0")
    case True
    with Cons.prems(1) x have "conditional_entropy_loop cs n acc = Inr r" by auto
    from Cons.IH[OF this rest]
    have "acc + S0 / real n * l0 + S1 / real n * l1 \<le> r"
      unfolding l0_def l1_def S0_def S1_def .
    moreover have "real c0 / real n * l0 \<le> 0"
      unfolding l0_def by (rule skipped_term_upper) (use le assms(3) in simp_all)
    moreover have "real c1 / real n * l1 \<le> 0"
      unfolding l1_def by (rule skipped_term_upper) (use le assms(3) in simp_all)
    ultimately show ?thesis unfolding A B by linarith
  next
    case False
    then have pos: "0 < c0" "0 < c1" by auto
    define tm where "tm = real (c0 + c1) / real n * side_entropy c0 c1"
    from False Cons.prems(1) assms(2) x have "conditional_entropy_loop cs n (acc + tm) = Inr r"
      by (simp add: Let_def side_entropy_def tm_def)
    from Cons.IH[OF this rest]
    have "acc + tm + S0 / real n * l0 + S1 / real n * l1 \<le> r"
      unfolding l0_def l1_def S0_def S1_def .
    moreover from category_term_lower[OF pos le]
    have "real c0 / real n * l0 + real c1 / real n * l1 \<le> tm"
      unfolding l0_def l1_def tm_def assms(3) .
    ultimately show ?thesis unfolding A B by linarith
  qed
qed

text \<open>
  C3 is a statement about the floating-point number that the source returns. The lemma
  below is its counterpart in exact arithmetic. It does not carry over to binary floating
  point: where the exact gain is 0, the rounded entropy and the rounded conditional entropy
  may differ in the last bit, and their difference may be a negative number of the order
  of \<^verbatim>\<open>1e-16\<close>.
\<close>

lemma information_gain_nonneg_exact:
  assumes "get_information_gain data a thr = Inr g"
  shows "0 \<le> g"
proof -
  define t0 where "t0 = sum_list (map (\<lambda>(category, c0, c1). c0) (case get_counts data a thr of Inr cs \<Rightarrow> cs))"
  define t1 where "t1 = sum_list (map (\<lambda>(category, c0, c1). c1) (case get_counts data a thr of Inr cs \<Rightarrow> cs))"
  from assms obtain cs e r where cs: "get_counts data a thr = Inr cs"
    and e: "class_entropy t0 t1 (length data) = Inr e"
    and r: "conditional_entropy_loop cs (length data) 0 = Inr r"
    and g: "g = e + r"
    by (auto simp: get_information_gain_def Let_def t0_def t1_def split: sum.splits)
  have t0: "t0 = sum_list (map (\<lambda>(category, c0, c1). c0) cs)"
    and t1: "t1 = sum_list (map (\<lambda>(category, c0, c1). c1) cs)"
    by (simp_all add: t0_def t1_def cs)
  have n: "length data = t0 + t1"
    using get_counts_sum[OF cs] unfolding t0 t1 by (simp add: sum_list_fst_le_total)
  have le: "\<forall>(k, c0, c1)\<in>set cs. c0 \<le> t0 \<and> c1 \<le> t1"
    unfolding t0 t1 using sum_list_pos0 sum_list_pos1 by blast
  show ?thesis
  proof (cases "t0 \<noteq> 0 \<and> t1 \<noteq> 0")
    case True
    then have pos: "0 < t0 + t1" by simp
    from conditional_entropy_loop_lower[OF r _ n le] pos n
    have "real t0 / real (t0 + t1) * log 2 (real t0 / real (t0 + t1))
          + real t1 / real (t0 + t1) * log 2 (real t1 / real (t0 + t1)) \<le> r"
      unfolding t0 t1 by simp
    moreover from e True pos
    have "e = - (real t0 / real (t0 + t1) * log 2 (real t0 / real (t0 + t1))
          + real t1 / real (t0 + t1) * log 2 (real t1 / real (t0 + t1)))"
      unfolding n by (simp add: class_entropy_def)
    ultimately show ?thesis using g by linarith
  next
    case False
    with e have e0: "e = 0" by (auto simp: class_entropy_def)
    have "\<forall>(k, c0, c1)\<in>set cs. c0 = 0 \<or> c1 = 0"
    proof (rule ccontr)
      assume "\<not> (\<forall>(k, c0, c1)\<in>set cs. c0 = 0 \<or> c1 = 0)"
      then obtain k c0 c1 where m: "(k, c0, c1) \<in> set cs" "c0 \<noteq> 0" "c1 \<noteq> 0" by auto
      from le m(1) have "c0 \<le> t0" "c1 \<le> t1" by auto
      with m(2,3) False show False by simp
    qed
    with r have "r = 0" by (rule conditional_entropy_loop_skip)
    with e0 g show ?thesis by simp
  qed
qed

end
